theory Spec2Isabelle
  imports Main "HOL-Library.AList"
begin

section \<open>Python strings\<close>

text \<open>
  A Python \<open>str\<close> is modelled as a \<open>string\<close> whose characters are the code points
  below 256. \<open>py_isspace\<close> is \<open>str.isspace\<close> on one such character and
  \<open>py_lower_char\<close> is \<open>str.lower\<close> on it.
\<close>

definition py_isspace :: "char \<Rightarrow> bool" where
  "py_isspace c \<longleftrightarrow> c \<in> set [CHR 0x09, CHR 0x0A, CHR 0x0B, CHR 0x0C, CHR 0x0D,
     CHR 0x1C, CHR 0x1D, CHR 0x1E, CHR 0x1F, CHR 0x20, CHR 0x85, CHR 0xA0]"

definition upper_chars :: string where
  "upper_chars = ''ABCDEFGHIJKLMNOPQRSTUVWXYZ'' @
     [CHR 0xC0, CHR 0xC1, CHR 0xC2, CHR 0xC3, CHR 0xC4, CHR 0xC5, CHR 0xC6, CHR 0xC7,
      CHR 0xC8, CHR 0xC9, CHR 0xCA, CHR 0xCB, CHR 0xCC, CHR 0xCD, CHR 0xCE, CHR 0xCF,
      CHR 0xD0, CHR 0xD1, CHR 0xD2, CHR 0xD3, CHR 0xD4, CHR 0xD5, CHR 0xD6, CHR 0xD8,
      CHR 0xD9, CHR 0xDA, CHR 0xDB, CHR 0xDC, CHR 0xDD, CHR 0xDE]"

definition lower_chars :: string where
  "lower_chars = ''abcdefghijklmnopqrstuvwxyz'' @
     [CHR 0xE0, CHR 0xE1, CHR 0xE2, CHR 0xE3, CHR 0xE4, CHR 0xE5, CHR 0xE6, CHR 0xE7,
      CHR 0xE8, CHR 0xE9, CHR 0xEA, CHR 0xEB, CHR 0xEC, CHR 0xED, CHR 0xEE, CHR 0xEF,
      CHR 0xF0, CHR 0xF1, CHR 0xF2, CHR 0xF3, CHR 0xF4, CHR 0xF5, CHR 0xF6, CHR 0xF8,
      CHR 0xF9, CHR 0xFA, CHR 0xFB, CHR 0xFC, CHR 0xFD, CHR 0xFE]"

definition py_lower_char :: "char \<Rightarrow> char" where
  "py_lower_char c =
     (case map_of (zip upper_chars lower_chars) c of None \<Rightarrow> c | Some l \<Rightarrow> l)"

definition lower :: "string \<Rightarrow> string" where
  "lower s = map py_lower_char s"

definition strip :: "string \<Rightarrow> string" where
  "strip s = rev (dropWhile py_isspace (rev (dropWhile py_isspace s)))"

definition strip_chars :: "string \<Rightarrow> string \<Rightarrow> string" where
  "strip_chars cs s =
     rev (dropWhile (\<lambda>c. c \<in> set cs) (rev (dropWhile (\<lambda>c. c \<in> set cs) s)))"

text \<open>\<open>x or d\<close> for an optional string \<open>x\<close>: \<open>None\<close> and the empty string are falsy.\<close>

definition or_else :: "string option \<Rightarrow> string \<Rightarrow> string" where
  "or_else x d = (case x of None \<Rightarrow> d | Some v \<Rightarrow> if v = [] then d else v)"

section \<open>The index store (app/services/index\_store.py)\<close>

definition parse_bool :: "string option \<Rightarrow> bool \<Rightarrow> bool" where
  "parse_bool v dflt =
     (case v of
        None \<Rightarrow> dflt
      | Some x \<Rightarrow>
          if x = [] then dflt
          else lower (strip x) \<in> set [''1'', ''true'', ''yes'', ''y''])"

definition bool_str :: "bool \<Rightarrow> string" where
  "bool_str b = (if b then ''true'' else ''false'')"

record IndexRow =
  filename :: string
  title :: string
  description :: string
  is_public :: bool
  date_uploaded :: string
  updated_at :: string

text \<open>
  One data row of \<open>index.csv\<close> as \<open>csv.DictReader\<close> hands it over and as
  \<open>csv.DictWriter\<close> takes it: a dictionary from column name to text, where a column
  that the row does not have reads as \<open>None\<close>. The csv library itself is outside the
  repository and is taken to carry every field text unchanged.
\<close>

type_synonym csv_record = "string \<rightharpoonup> string"

text \<open>
  The files under the store's base path: \<open>database/index.csv\<close> (\<open>None\<close> while it
  does not exist), the directory \<open>markdown_files\<close> (file name to content) and
  \<open>prompts/summarize_markdown.md\<close>.
\<close>

record store =
  index_csv :: "csv_record list option"
  markdown_dir :: "string \<rightharpoonup> string"
  prompt_file :: "string option"

text \<open>The body of the loop of \<open>_read_rows\<close>; \<open>today\<close> is the value of \<open>_today_str()\<close>.\<close>

definition read_record :: "string \<Rightarrow> csv_record \<Rightarrow> IndexRow option" where
  "read_record today record =
     (let fname = strip (or_else (record ''filename'') '''')
      in if fname = [] then None
         else Some \<lparr> filename = fname,
                     title = strip (or_else (record ''title'') ''''),
                     description = strip (or_else (record ''description'') ''''),
                     is_public = parse_bool (record ''is_public'') True,
                     date_uploaded = strip (or_else (record ''date_uploaded'') today),
                     updated_at = strip (or_else (record ''updated_at'') '''') \<rparr>)"

definition read_rows :: "string \<Rightarrow> store \<Rightarrow> IndexRow list" where
  "read_rows today s =
     (case index_csv s of
        None \<Rightarrow> []
      | Some records \<Rightarrow> List.map_filter (read_record today) records)"

definition write_record :: "IndexRow \<Rightarrow> csv_record" where
  "write_record row =
     [''filename'' \<mapsto> filename row,
      ''title'' \<mapsto> title row,
      ''description'' \<mapsto> description row,
      ''is_public'' \<mapsto> bool_str (is_public row),
      ''date_uploaded'' \<mapsto> date_uploaded row,
      ''updated_at'' \<mapsto> updated_at row]"

definition write_rows :: "IndexRow list \<Rightarrow> store \<Rightarrow> store" where
  "write_rows rows s = s\<lparr>index_csv := Some (map write_record rows)\<rparr>"

definition list_rows :: "string \<Rightarrow> store \<Rightarrow> IndexRow list" where
  "list_rows today s = read_rows today s"

text \<open>
  The loop of \<open>upsert_row\<close>: the first row with the same filename is overwritten and the
  loop breaks; the flag says whether that happened.
\<close>

fun replace_first :: "IndexRow \<Rightarrow> IndexRow list \<Rightarrow> IndexRow list \<times> bool" where
  "replace_first row [] = ([], False)"
| "replace_first row (existing # rest) =
     (if filename existing = filename row then (row # rest, True)
      else (case replace_first row rest of (rest', updated) \<Rightarrow> (existing # rest', updated)))"

definition upsert_row :: "string \<Rightarrow> IndexRow \<Rightarrow> store \<Rightarrow> store" where
  "upsert_row today row s =
     (case replace_first row (read_rows today s) of
        (rows, updated) \<Rightarrow>
          write_rows (if \<not> updated then rows @ [row] else rows) s)"

text \<open>A Python \<open>dict\<close> is an association list in insertion order, read with \<open>map_of\<close>
  and assigned with \<open>AList.update\<close>.\<close>

type_synonym ('k, 'v) dict = "('k \<times> 'v) list"

text \<open>The body of the loop of \<open>update_missing_metadata\<close>; \<open>now\<close> is \<open>_timestamp()\<close>.\<close>

definition apply_update ::
  "string \<Rightarrow> (string, (string, string) dict) dict \<Rightarrow> IndexRow \<Rightarrow> IndexRow" where
  "apply_update now updates row =
     (case map_of updates (filename row) of
        None \<Rightarrow> row
      | Some update \<Rightarrow>
          (let row1 = (case map_of update ''title'' of
                         None \<Rightarrow> row
                       | Some t \<Rightarrow> if t = [] then row else row\<lparr>title := t\<rparr>);
               row2 = (case map_of update ''description'' of
                         None \<Rightarrow> row1
                       | Some d \<Rightarrow> if d = [] then row1 else row1\<lparr>description := d\<rparr>)
           in row2\<lparr>updated_at := now\<rparr>))"

definition update_missing_metadata ::
  "string \<Rightarrow> string \<Rightarrow> (string, (string, string) dict) dict \<Rightarrow> store \<Rightarrow> store" where
  "update_missing_metadata today now updates s =
     (if updates = [] then s
      else write_rows (map (apply_update now updates) (read_rows today s)) s)"

subsection \<open>File names\<close>

datatype error = ValueError

text \<open>\<open>str.rfind\<close> for one character.\<close>

definition rfind_char :: "char \<Rightarrow> string \<Rightarrow> nat option" where
  "rfind_char c p =
     (if c \<in> set p then Some (length p - 1 - length (takeWhile (\<lambda>x. x \<noteq> c) (rev p)))
      else None)"

text \<open>\<open>os.path.basename\<close> and \<open>os.path.splitext\<close> on a POSIX path: the extension starts
  at the last dot of the last component, unless only dots precede it there.\<close>

definition basename :: "string \<Rightarrow> string" where
  "basename p = rev (takeWhile (\<lambda>x. x \<noteq> CHR ''/'') (rev p))"

definition splitext :: "string \<Rightarrow> string \<times> string" where
  "splitext p =
     (case rfind_char CHR ''.'' p of
        None \<Rightarrow> (p, [])
      | Some dot \<Rightarrow>
          (let start = (case rfind_char CHR ''/'' p of None \<Rightarrow> 0 | Some i \<Rightarrow> i + 1)
           in if start \<le> dot \<and> list_ex (\<lambda>x. x \<noteq> CHR ''.'') (take (dot - start) (drop start p))
              then (take dot p, drop dot p)
              else (p, [])))"

definition ALLOWED_EXTENSIONS :: "string list" where
  "ALLOWED_EXTENSIONS = [''.md'', ''.markdown'']"

definition name_char :: "char \<Rightarrow> bool" where
  "name_char c \<longleftrightarrow>
     c \<in> set ''ABCDEFGHIJKLMNOPQRSTUVWXYZabcdefghijklmnopqrstuvwxyz0123456789_-''"

text \<open>\<open>re.sub(r"[^A-Za-z0-9_-]+", "_", name)\<close>: every maximal run of other characters
  becomes one underscore.\<close>

function sub_runs :: "string \<Rightarrow> string" where
  "sub_runs [] = []"
| "sub_runs (c # cs) =
     (if name_char c then c # sub_runs cs
      else CHR ''_'' # sub_runs (dropWhile (\<lambda>x. \<not> name_char x) cs))"
  by pat_completeness auto
termination
  by (relation "measure length") (auto simp: less_Suc_eq_le length_dropWhile_le)

definition sanitize_filename :: "string \<Rightarrow> error + string" where
  "sanitize_filename original_name =
     (case splitext (basename original_name) of
        (name, ext) \<Rightarrow>
          (let ext = lower ext
           in if ext \<notin> set ALLOWED_EXTENSIONS then Inl ValueError
              else (let name = strip_chars ''_'' (sub_runs name);
                        name = (if name = [] then ''document'' else name)
                    in Inr (name @ ext))))"

text \<open>\<open>str(counter)\<close> for a counter that is never negative.\<close>

function str_nat :: "nat \<Rightarrow> string" where
  "str_nat n =
     (if n < 10 then [''0123456789'' ! n]
      else str_nat (n div 10) @ [''0123456789'' ! (n mod 10)])"
  by pat_completeness auto
termination
  by (relation "measure id") auto

declare str_nat.simps [simp del]

text \<open>The \<open>while True\<close> loop of \<open>ensure_unique_filename\<close>; it does not return while
  every candidate exists.\<close>

partial_function (option) unique_loop ::
  "(string \<rightharpoonup> string) \<Rightarrow> string \<Rightarrow> string \<Rightarrow> nat \<Rightarrow> string option" where
  "unique_loop dir name ext counter =
     (if dir (name @ ''-'' @ str_nat counter @ ext) = None
      then Some (name @ ''-'' @ str_nat counter @ ext)
      else unique_loop dir name ext (counter + 1))"

declare unique_loop.simps [code]

definition ensure_unique_filename :: "store \<Rightarrow> string \<Rightarrow> string option" where
  "ensure_unique_filename s fname =
     (if markdown_dir s fname = None then Some fname
      else (case splitext fname of (name, ext) \<Rightarrow> unique_loop (markdown_dir s) name ext 1))"

text \<open>\<open>save_markdown_file\<close> returns the stored name and the store with the file written;
  \<open>None\<close> stands for a search for a free name that does not end.\<close>

definition save_markdown_file ::
  "string \<Rightarrow> string \<Rightarrow> store \<Rightarrow> (error + string \<times> store) option" where
  "save_markdown_file fname content s =
     (case sanitize_filename fname of
        Inl e \<Rightarrow> Some (Inl e)
      | Inr sanitized \<Rightarrow>
          (case ensure_unique_filename s sanitized of
             None \<Rightarrow> None
           | Some unique_name \<Rightarrow>
               Some (Inr (unique_name,
                          s\<lparr>markdown_dir := (markdown_dir s)(unique_name \<mapsto> content)\<rparr>))))"

section \<open>Enrichment and the fallback scanner (app/main.py)\<close>

text \<open>\<open>str.replace(old, new)\<close>, left to right over non-overlapping occurrences.\<close>

function py_replace :: "string \<Rightarrow> string \<Rightarrow> string \<Rightarrow> string" where
  "py_replace old new [] = (if old = [] then new else [])"
| "py_replace old new (c # cs) =
     (if old = [] then new @ c # py_replace old new cs
      else if take (length old) (c # cs) = old
           then new @ py_replace old new (drop (length old) (c # cs))
           else c # py_replace old new cs)"
  by pat_completeness auto
termination
  by (relation "measure (\<lambda>(old, new, s). length s)") auto

definition fallback_prompt :: string where
  "fallback_prompt =
     ''Summarize the markdown and return JSON with keys title and description. '' @
     ''Use a concise title and a 1-3 sentence description with an animated tone and '' @
     ''emojis where appropriate.'' @ [CHR 0x0A] @ ''Markdown:'' @ [CHR 0x0A] @
     ''{markdown_file_content}''"

definition load_prompt :: "store \<Rightarrow> string \<Rightarrow> string" where
  "load_prompt s markdown_text =
     py_replace ''{markdown_file_content}'' markdown_text
       (case prompt_file s of Some template \<Rightarrow> template | None \<Rightarrow> fallback_prompt)"

text \<open>\<open>d.get(key)\<close> is truthy: the key is there and its text is not empty.\<close>

definition truthy :: "string option \<Rightarrow> bool" where
  "truthy x = (case x of None \<Rightarrow> False | Some v \<Rightarrow> v \<noteq> [])"

text \<open>\<open>existing.get(filename, {}).get(key)\<close>\<close>

definition existing_get ::
  "(string, (string, string) dict) dict \<Rightarrow> string \<Rightarrow> string \<Rightarrow> string option" where
  "existing_get existing fname key =
     (case map_of existing fname of None \<Rightarrow> None | Some d \<Rightarrow> map_of d key)"

text \<open>
  One round of the loop of \<open>_build_metadata_updates\<close> on the pair of the updates so far and
  the error count. \<open>generate\<close> is \<open>openai_service.generate_metadata\<close>, an external
  service: any function from the prompt to an optional dictionary.
\<close>

definition build_step ::
  "(string \<Rightarrow> (string, string) dict option) \<Rightarrow> store \<Rightarrow>
   (string, (string, string) dict) dict \<Rightarrow> string \<Rightarrow>
   (string, (string, string) dict) dict \<times> nat \<Rightarrow>
   (string, (string, string) dict) dict \<times> nat" where
  "build_step generate s existing fname acc =
     (case acc of (updates, errors) \<Rightarrow>
        (case markdown_dir s fname of
           None \<Rightarrow> (updates, errors + 1)
         | Some content \<Rightarrow>
             (case generate (load_prompt s content) of
                None \<Rightarrow> (updates, errors + 1)
              | Some generated \<Rightarrow>
                  if generated = [] then (updates, errors + 1)
                  else
                    (let ttl = strip (case map_of generated ''title'' of
                                        None \<Rightarrow> [] | Some v \<Rightarrow> v);
                         descr = strip (case map_of generated ''description'' of
                                          None \<Rightarrow> [] | Some v \<Rightarrow> v);
                         payload = [];
                         payload = (if ttl \<noteq> [] \<and> \<not> truthy (existing_get existing fname ''title'')
                                    then AList.update ''title'' ttl payload else payload);
                         payload = (if descr \<noteq> [] \<and>
                                       \<not> truthy (existing_get existing fname ''description'')
                                    then AList.update ''description'' descr payload else payload)
                     in if payload \<noteq> [] then (AList.update fname payload updates, errors)
                        else (updates, errors)))))"

definition build_metadata_updates ::
  "(string \<Rightarrow> (string, string) dict option) \<Rightarrow> store \<Rightarrow> string list \<Rightarrow>
   (string, (string, string) dict) dict \<Rightarrow>
   (string, (string, string) dict) dict \<times> nat" where
  "build_metadata_updates generate s filenames existing =
     fold (build_step generate s existing) filenames ([], 0)"

record SearchResult =
  snippet :: string
  result_filename :: string

text \<open>\<open>str.find(sub, start)\<close> for \<open>start \<ge> 0\<close>; \<open>None\<close> is Python's \<open>-1\<close>.\<close>

function find_from :: "string \<Rightarrow> string \<Rightarrow> nat \<Rightarrow> nat option" where
  "find_from s sub start =
     (if length s < start + length sub then None
      else if take (length sub) (drop start s) = sub then Some start
      else find_from s sub (start + 1))"
  by pat_completeness auto
termination
  by (relation "measure (\<lambda>(s, sub, start). length s + 1 - start)") auto

declare find_from.simps [simp del]

text \<open>The \<open>while True\<close> loop of \<open>_find_matches\<close>, with the list \<open>indexes\<close> built so far.\<close>

partial_function (option) find_loop ::
  "string \<Rightarrow> string \<Rightarrow> nat \<Rightarrow> nat list \<Rightarrow> nat list option" where
  "find_loop content_lower term_lower start indexes =
     (case find_from content_lower term_lower start of
        None \<Rightarrow> Some indexes
      | Some idx \<Rightarrow>
          find_loop content_lower term_lower (idx + length term_lower) (indexes @ [idx]))"

declare find_loop.simps [code]

definition find_matches :: "string \<Rightarrow> string \<Rightarrow> nat list option" where
  "find_matches content trm =
     (if trm = [] then Some []
      else find_loop (lower content) (lower trm) 0 [])"

text \<open>\<open>re.search(r"\"([^\"]+)\"", query)\<close>: the leftmost quote that is followed by at least
  one other character and then a quote; group 1 is what stands between the two.\<close>

fun search_quoted :: "string \<Rightarrow> string option" where
  "search_quoted [] = None"
| "search_quoted (c # cs) =
     (if c = CHR 0x22 \<and> takeWhile (\<lambda>x. x \<noteq> CHR 0x22) cs \<noteq> [] \<and>
         dropWhile (\<lambda>x. x \<noteq> CHR 0x22) cs \<noteq> []
      then Some (takeWhile (\<lambda>x. x \<noteq> CHR 0x22) cs)
      else search_quoted cs)"

definition extract_phrase :: "string \<Rightarrow> string option" where
  "extract_phrase query = map_option strip (search_quoted query)"

definition window :: nat where
  "window = 25"

text \<open>The body of the inner loop of \<open>_fallback_search\<close>: the snippet of the match at \<open>start\<close>.\<close>

definition make_snippet :: "string \<Rightarrow> string \<Rightarrow> nat \<Rightarrow> string" where
  "make_snippet content trm start =
     (let end = start + length trm;
          snippet_start = nat (max (int start - int window) 0);
          snippet_end = min (end + window) (length content);
          snip = take (snippet_end - snippet_start) (drop snippet_start content);
          snip = (if snippet_start > 0 then ''...'' @ snip else snip);
          snip = (if snippet_end < length content then snip @ ''...'' else snip)
      in snip)"

text \<open>The outer loop of \<open>_fallback_search\<close> over the rows.\<close>

fun scan_rows :: "store \<Rightarrow> string \<Rightarrow> IndexRow list \<Rightarrow> SearchResult list option" where
  "scan_rows s trm [] = Some []"
| "scan_rows s trm (row # rows) =
     (case markdown_dir s (filename row) of
        None \<Rightarrow> scan_rows s trm rows
      | Some content \<Rightarrow>
          (case find_matches content trm of
             None \<Rightarrow> None
           | Some matches \<Rightarrow>
               (case scan_rows s trm rows of
                  None \<Rightarrow> None
                | Some results \<Rightarrow>
                    Some (map (\<lambda>start. \<lparr> snippet = make_snippet content trm start,
                                           result_filename = filename row \<rparr>) matches
                          @ results))))"

definition fallback_search ::
  "string \<Rightarrow> store \<Rightarrow> string \<Rightarrow> bool \<Rightarrow> SearchResult list option" where
  "fallback_search today s query public_only =
     (let query = strip query
      in if query = [] then Some []
         else
           (let rows = list_rows today s;
                rows = (if public_only then filter is_public rows else rows);
                trm = or_else (extract_phrase query) query
            in map_option (take 100) (scan_rows s trm rows)))"

section \<open>The search service (app/services/search\_service.py)\<close>

text \<open>
  The Elasticsearch client is an external collaborator. Its calls are the fields of
  \<open>engine\<close>: each takes the state \<open>'e\<close> of the remote engine and returns the new state
  with either the exception it raised (\<open>Inl\<close>, the message) or its answer (\<open>Inr\<close>).
\<close>

datatype es_query = MatchPhrase string | QueryString string

record search_body =
  body_must :: es_query
  body_public_filter :: bool
  body_size :: int

text \<open>One hit of a search response: \<open>_source.filename\<close> and \<open>highlight.content\<close>, each
  \<open>None\<close> when the response does not have it.\<close>

record hit =
  hit_filename :: "string option"
  hit_fragments :: "string list option"

record 'e engine =
  indices_exists :: "string \<Rightarrow> 'e \<Rightarrow> (string + bool) \<times> 'e"
  indices_create :: "string \<Rightarrow> 'e \<Rightarrow> (string + unit) \<times> 'e"
  es_index :: "string \<Rightarrow> string \<Rightarrow> string \<Rightarrow> bool \<Rightarrow> 'e \<Rightarrow> (string + unit) \<times> 'e"
  es_delete :: "string \<Rightarrow> string \<Rightarrow> 'e \<Rightarrow> (string + unit) \<times> 'e"
  es_update :: "string \<Rightarrow> string \<Rightarrow> bool \<Rightarrow> 'e \<Rightarrow> (string + unit) \<times> 'e"
  es_search :: "string \<Rightarrow> search_body \<Rightarrow> 'e \<Rightarrow> (string + hit list) \<times> 'e"

text \<open>The service object; \<open>client\<close> holds the url and credentials the client was built
  with, and is \<open>None\<close> when no url is configured.\<close>

record SearchService =
  index_name :: string
  index_ready :: bool
  client :: "(string \<times> (string \<times> string) option) option"

definition init_service ::
  "string option \<Rightarrow> string \<Rightarrow> string option \<Rightarrow> string option \<Rightarrow> SearchService" where
  "init_service url iname username password =
     \<lparr> index_name = iname, index_ready = False,
       client = (if truthy url
                 then Some (or_else url [],
                            if truthy username \<and> truthy password
                            then Some (or_else username [], or_else password []) else None)
                 else None) \<rparr>"

definition is_enabled :: "SearchService \<Rightarrow> bool" where
  "is_enabled svc \<longleftrightarrow> client svc \<noteq> None"

definition ensure_index :: "'e engine \<Rightarrow> SearchService \<times> 'e \<Rightarrow> SearchService \<times> 'e" where
  "ensure_index api w =
     (case w of (svc, e) \<Rightarrow>
        if client svc = None \<or> index_ready svc then (svc, e)
        else (case indices_exists api (index_name svc) e of
                (Inl exc, e1) \<Rightarrow> (svc, e1)
              | (Inr exists, e1) \<Rightarrow>
                  if \<not> exists
                  then (case indices_create api (index_name svc) e1 of
                          (Inl exc, e2) \<Rightarrow> (svc, e2)
                        | (Inr u, e2) \<Rightarrow> (svc\<lparr>index_ready := True\<rparr>, e2))
                  else (svc\<lparr>index_ready := True\<rparr>, e1)))"

definition index_document ::
  "'e engine \<Rightarrow> string \<Rightarrow> string \<Rightarrow> bool \<Rightarrow> SearchService \<times> 'e \<Rightarrow> SearchService \<times> 'e" where
  "index_document api fname content pub w =
     (if client (fst w) = None then w
      else (case ensure_index api w of (svc, e) \<Rightarrow>
              (case es_index api (index_name svc) fname content pub e of
                 (Inl exc, e1) \<Rightarrow> (svc, e1)
               | (Inr u, e1) \<Rightarrow> (svc, e1))))"

definition delete_document ::
  "'e engine \<Rightarrow> string \<Rightarrow> SearchService \<times> 'e \<Rightarrow> SearchService \<times> 'e" where
  "delete_document api fname w =
     (if client (fst w) = None then w
      else (case ensure_index api w of (svc, e) \<Rightarrow>
              (case es_delete api (index_name svc) fname e of
                 (Inl exc, e1) \<Rightarrow> (svc, e1)
               | (Inr u, e1) \<Rightarrow> (svc, e1))))"

definition update_visibility ::
  "'e engine \<Rightarrow> string \<Rightarrow> bool \<Rightarrow> SearchService \<times> 'e \<Rightarrow> SearchService \<times> 'e" where
  "update_visibility api fname pub w =
     (if client (fst w) = None then w
      else (case ensure_index api w of (svc, e) \<Rightarrow>
              (case es_update api (index_name svc) fname pub e of
                 (Inl exc, e1) \<Rightarrow> (svc, e1)
               | (Inr u, e1) \<Rightarrow> (svc, e1))))"

text \<open>\<open>str.split()\<close>: the words between runs of whitespace; \<open>cur\<close> is the word being read.\<close>

fun split_acc :: "string \<Rightarrow> string \<Rightarrow> string list" where
  "split_acc cur [] = (if cur = [] then [] else [cur])"
| "split_acc cur (c # cs) =
     (if py_isspace c then (if cur = [] then split_acc [] cs else cur # split_acc [] cs)
      else split_acc (cur @ [c]) cs)"

definition py_split :: "string \<Rightarrow> string list" where
  "py_split s = split_acc [] s"

definition escape_query_string :: "string \<Rightarrow> string" where
  "escape_query_string v =
     concat (map (\<lambda>c. if c \<in> set (''+-=&|><!(){}[]^~:/'' @ [CHR 0x22, CHR 0x5C])
                        then [CHR 0x5C, c] else [c]) v)"

text \<open>\<open>" ".join(parts)\<close>\<close>

fun join_space :: "string list \<Rightarrow> string" where
  "join_space [] = []"
| "join_space [x] = x"
| "join_space (x # y # ys) = x @ '' '' @ join_space (y # ys)"

definition build_query :: "string \<Rightarrow> es_query" where
  "build_query query =
     (case search_quoted query of
        Some phrase \<Rightarrow> MatchPhrase (strip phrase)
      | None \<Rightarrow>
          QueryString
            (join_space (map (\<lambda>t. ''*'' @ escape_query_string t @ ''*'')
                           (filter (\<lambda>t. t \<noteq> []) (py_split query)))))"

definition hit_results :: "hit \<Rightarrow> SearchResult list" where
  "hit_results h =
     (let fname = (case hit_filename h of None \<Rightarrow> [] | Some f \<Rightarrow> f);
          fragments = (case hit_fragments h of None \<Rightarrow> [] | Some fs \<Rightarrow> fs)
      in if fragments \<noteq> []
         then map (\<lambda>fragment. \<lparr> snippet = fragment, result_filename = fname \<rparr>) fragments
         else [\<lparr> snippet = [], result_filename = fname \<rparr>])"

text \<open>\<open>search\<close> returns \<open>None\<close> (not available) or the list of results, with the service
  and the engine as the call leaves them.\<close>

definition search ::
  "'e engine \<Rightarrow> string \<Rightarrow> bool \<Rightarrow> int \<Rightarrow> SearchService \<times> 'e \<Rightarrow>
   SearchResult list option \<times> SearchService \<times> 'e" where
  "search api query public_only sz w =
     (if client (fst w) = None then (None, w)
      else (case ensure_index api w of (svc, e) \<Rightarrow>
              (let query = strip query
               in if query = [] then (Some [], svc, e)
                  else (case es_search api (index_name svc)
                               \<lparr> body_must = build_query query,
                                 body_public_filter = public_only,
                                 body_size = sz \<rparr> e of
                          (Inl exc, e1) \<Rightarrow> (None, svc, e1)
                        | (Inr hits, e1) \<Rightarrow> (Some (concat (map hit_results hits)), svc, e1)))))"

text \<open>\<open>_run_search\<close> of app/main.py; the outer \<open>None\<close> stands for a scan that does not
  return.\<close>

definition run_search ::
  "'e engine \<Rightarrow> string \<Rightarrow> store \<Rightarrow> string \<Rightarrow> bool \<Rightarrow> SearchService \<times> 'e \<Rightarrow>
   (SearchResult list \<times> SearchService \<times> 'e) option" where
  "run_search api today s query is_authenticated w =
     (let public_only = \<not> is_authenticated
      in if is_enabled (fst w)
         then (case search api query public_only 50 w of
                 (Some results, w1) \<Rightarrow> Some (results, w1)
               | (None, w1) \<Rightarrow>
                   map_option (\<lambda>r. (r, w1)) (fallback_search today s query public_only))
         else map_option (\<lambda>r. (r, w)) (fallback_search today s query public_only))"

section \<open>Notions used in the statements\<close>

text \<open>A text without leading or trailing whitespace, and a row all of whose texts are so
  and whose filename is not empty.\<close>

definition trimmed :: "string \<Rightarrow> bool" where
  "trimmed s \<longleftrightarrow> strip s = s"

definition trimmed_row :: "IndexRow \<Rightarrow> bool" where
  "trimmed_row r \<longleftrightarrow>
     filename r \<noteq> [] \<and> trimmed (filename r) \<and> trimmed (title r) \<and> trimmed (description r) \<and>
     trimmed (date_uploaded r) \<and> trimmed (updated_at r)"

text \<open>The date default of \<open>_read_rows\<close> on a row.\<close>

definition default_date :: "string \<Rightarrow> IndexRow \<Rightarrow> IndexRow" where
  "default_date today r = (if date_uploaded r = [] then r\<lparr>date_uploaded := strip today\<rparr> else r)"

text \<open>The row that \<open>_read_rows\<close> returns for a row that \<open>_write_rows\<close> wrote.\<close>

definition stored :: "string \<Rightarrow> IndexRow \<Rightarrow> IndexRow" where
  "stored today r =
     \<lparr> filename = strip (filename r), title = strip (title r), description = strip (description r),
       is_public = is_public r,
       date_uploaded = strip (if date_uploaded r = [] then today else date_uploaded r),
       updated_at = strip (updated_at r) \<rparr>"

text \<open>A store with no index file and no markdown file.\<close>

definition empty_store :: store where
  "empty_store = \<lparr> index_csv = None, markdown_dir = Map.empty, prompt_file = None \<rparr>"

text \<open>An engine that counts the requests it receives: it has no index yet, creates one
  when asked, and refuses every search.\<close>

definition counting_engine :: "nat engine" where
  "counting_engine =
     \<lparr> indices_exists = (\<lambda>iname n. (Inr False, n + 1)),
       indices_create = (\<lambda>iname n. (Inr (), n + 1)),
       es_index = (\<lambda>iname fname content pub n. (Inr (), n + 1)),
       es_delete = (\<lambda>iname fname n. (Inr (), n + 1)),
       es_update = (\<lambda>iname fname pub n. (Inr (), n + 1)),
       es_search = (\<lambda>iname body n. (Inl ''connection refused'', n + 1)) \<rparr>"

text \<open>An engine whose index check raises while its search answers with one hit.\<close>

definition check_failing_engine :: "nat engine" where
  "check_failing_engine =
     \<lparr> indices_exists = (\<lambda>iname n. (Inl ''forbidden'', n + 1)),
       indices_create = (\<lambda>iname n. (Inl ''forbidden'', n + 1)),
       es_index = (\<lambda>iname fname content pub n. (Inr (), n + 1)),
       es_delete = (\<lambda>iname fname n. (Inr (), n + 1)),
       es_update = (\<lambda>iname fname pub n. (Inr (), n + 1)),
       es_search = (\<lambda>iname body n.
         (Inr [\<lparr> hit_filename = Some ''a.md'', hit_fragments = Some [''the report''] \<rparr>], n + 1)) \<rparr>"

text \<open>The term occurs in the content at offset \<open>p\<close>, letter case aside.\<close>

definition occurs_at :: "string \<Rightarrow> string \<Rightarrow> nat \<Rightarrow> bool" where
  "occurs_at content trm p \<longleftrightarrow>
     p + length trm \<le> length content \<and>
     take (length trm) (drop p (lower content)) = lower trm"

text \<open>A document of 200 characters in which \<open>test\<close> occurs at offset 100 only, and a
  store that holds it as a public file.\<close>

definition example_doc :: string where
  "example_doc = replicate 100 CHR ''a'' @ ''test'' @ replicate 96 CHR ''b''"

definition example_store :: store where
  "example_store =
     \<lparr> index_csv = Some [[''filename'' \<mapsto> ''doc.md'', ''is_public'' \<mapsto> ''true'']],
       markdown_dir = [''doc.md'' \<mapsto> example_doc], prompt_file = None \<rparr>"

text \<open>A filename as \<open>_read_rows\<close> keeps it: not empty, no whitespace at either end.\<close>

definition clean_name :: "string \<Rightarrow> bool" where
  "clean_name f \<longleftrightarrow> f \<noteq> [] \<and> strip f = f"

text \<open>A store with two indexed markdown files, the first with title and description, the
  second with neither; the existing map that the handlers build from it; and a summarizer
  that always proposes the same title and description.\<close>

definition enrich_store :: store where
  "enrich_store =
     \<lparr> index_csv = Some [[''filename'' \<mapsto> ''d.md'', ''title'' \<mapsto> ''X'', ''description'' \<mapsto> ''Z'',
                           ''is_public'' \<mapsto> ''true'', ''date_uploaded'' \<mapsto> ''2024-05-01'',
                           ''updated_at'' \<mapsto> ''2024-05-01 09:00:00''],
                          [''filename'' \<mapsto> ''e.md'', ''title'' \<mapsto> [], ''description'' \<mapsto> [],
                           ''is_public'' \<mapsto> ''false'', ''date_uploaded'' \<mapsto> ''2024-05-01'',
                           ''updated_at'' \<mapsto> ''2024-05-01 09:00:00'']],
       markdown_dir = [''d.md'' \<mapsto> ''# D'', ''e.md'' \<mapsto> ''# E''],
       prompt_file = None \<rparr>"

definition enrich_existing :: "(string, (string, string) dict) dict" where
  "enrich_existing =
     [(''d.md'', [(''title'', ''X''), (''description'', ''Z'')]),
      (''e.md'', [(''title'', []), (''description'', [])])]"

definition constant_summarizer :: "string \<Rightarrow> (string, string) dict option" where
  "constant_summarizer prompt = Some [(''title'', ''Y''), (''description'', ''D'')]"

section \<open>Strings\<close>

lemmas str_simps = lower_def py_lower_char_def upper_chars_def lower_chars_def strip_def
  py_isspace_def or_else_def strip_chars_def

lemma strip_Nil: "strip [] = []"
  by (simp add: strip_def)

lemma dropWhile_hd_id: "xs = [] \<or> \<not> P (hd xs) \<Longrightarrow> dropWhile P xs = xs"
  by (cases xs) auto

lemma rstrip_hd:
  assumes "rev (dropWhile P (rev t)) \<noteq> []"
  shows "hd (rev (dropWhile P (rev t))) = hd t"
proof -
  have "t = rev (dropWhile P (rev t)) @ rev (takeWhile P (rev t))"
    by (metis rev_append rev_rev_ident takeWhile_dropWhile_id)
  then show ?thesis using assms by (metis hd_append2)
qed

lemma strip_idem: "strip (strip s) = strip s"
proof -
  let ?t = "dropWhile py_isspace s"
  let ?u = "rev (dropWhile py_isspace (rev ?t))"
  have t: "?t = [] \<or> \<not> py_isspace (hd ?t)"
    by (metis hd_dropWhile)
  have u: "?u = [] \<or> \<not> py_isspace (hd ?u)"
  proof (cases "?u = []")
    case True
    then show ?thesis by simp
  next
    case False
    have "?t \<noteq> []"
    proof
      assume e: "?t = []"
      have "?u = []" unfolding e by simp
      with False show False by simp
    qed
    with t have "\<not> py_isspace (hd ?t)" by blast
    moreover have "hd ?u = hd ?t" using False by (rule rstrip_hd)
    ultimately show ?thesis by simp
  qed
  have a: "dropWhile py_isspace ?u = ?u"
    using u by (rule dropWhile_hd_id)
  have "dropWhile py_isspace (rev ?t) = [] \<or> \<not> py_isspace (hd (dropWhile py_isspace (rev ?t)))"
    by (metis hd_dropWhile)
  then have b: "dropWhile py_isspace (dropWhile py_isspace (rev ?t)) = dropWhile py_isspace (rev ?t)"
    by (rule dropWhile_hd_id)
  show ?thesis
    unfolding strip_def a by (simp add: b)
qed

section \<open>Writing and reading the table\<close>

lemma parse_bool_bool_str: "parse_bool (Some (bool_str b)) d = b"
  by (cases b) (simp_all add: parse_bool_def bool_str_def str_simps)

lemma read_record_write_record:
  "read_record today (write_record r) =
     (if strip (filename r) = [] then None else Some (stored today r))"
  by (simp add: read_record_def write_record_def stored_def or_else_def parse_bool_bool_str strip_Nil)

lemma read_rows_write_rows:
  "read_rows today (write_rows rows s) =
     List.map_filter (\<lambda>r. read_record today (write_record r)) rows"
  by (simp add: read_rows_def write_rows_def List.map_filter_def filter_map comp_def)

lemma stored_trimmed: "trimmed_row r \<Longrightarrow> stored today r = default_date today r"
  by (auto simp add: trimmed_row_def trimmed_def stored_def default_date_def)




text \<open>
  C5 (as amended). Reading the table yields \<open>is_public = true\<close> for every row whose
  \<open>is_public\<close> field is missing or empty; a field with any other text reads as true
  exactly when, trimmed and in lower case, it is one of \<open>1\<close>, \<open>true\<close>, \<open>yes\<close>, \<open>y\<close>, so
  a text that is no boolean token reads as false.
\<close>

theorem read_rows_is_public:
  assumes "index_csv s = Some records"
  shows "map is_public (read_rows today s) =
         map (\<lambda>record. case record ''is_public'' of
                          None \<Rightarrow> True
                        | Some v \<Rightarrow> v = [] \<or> lower (strip v) \<in> {''1'', ''true'', ''yes'', ''y''})
             (filter (\<lambda>record. strip (or_else (record ''filename'') '''') \<noteq> []) records)"
proof -
  have "map is_public (List.map_filter (read_record today) rs) =
         map (\<lambda>record. case record ''is_public'' of
                          None \<Rightarrow> True
                        | Some v \<Rightarrow> v = [] \<or> lower (strip v) \<in> {''1'', ''true'', ''yes'', ''y''})
             (filter (\<lambda>record. strip (or_else (record ''filename'') '''') \<noteq> []) rs)" for rs
    by (induction rs) (auto simp add: read_record_def parse_bool_def Let_def split: option.splits)
  then show ?thesis using assms by (simp add: read_rows_def)
qed

theorem read_rows_is_public_witness:
  "map is_public
     (read_rows ''2024-05-02''
        \<lparr> index_csv = Some [[''filename'' \<mapsto> ''a.md''],
                            [''filename'' \<mapsto> ''b.md'', ''is_public'' \<mapsto> ''''],
                            [''filename'' \<mapsto> ''c.md'', ''is_public'' \<mapsto> '' YES ''],
                            [''filename'' \<mapsto> ''d.md'', ''is_public'' \<mapsto> ''false'']],
          markdown_dir = Map.empty, prompt_file = None \<rparr>) =
   [True, True, True, False]"
proof -
  let ?s = "\<lparr> index_csv = Some [[''filename'' \<mapsto> ''a.md''],
                            [''filename'' \<mapsto> ''b.md'', ''is_public'' \<mapsto> ''''],
                            [''filename'' \<mapsto> ''c.md'', ''is_public'' \<mapsto> '' YES ''],
                            [''filename'' \<mapsto> ''d.md'', ''is_public'' \<mapsto> ''false'']],
          markdown_dir = Map.empty, prompt_file = None \<rparr>"
  have h: "index_csv ?s = Some [[''filename'' \<mapsto> ''a.md''],
                            [''filename'' \<mapsto> ''b.md'', ''is_public'' \<mapsto> ''''],
                            [''filename'' \<mapsto> ''c.md'', ''is_public'' \<mapsto> '' YES ''],
                            [''filename'' \<mapsto> ''d.md'', ''is_public'' \<mapsto> ''false'']]"
    by simp
  show ?thesis
    using read_rows_is_public [OF h, of "''2024-05-02''"]
    by (simp add: str_simps)
qed

theorem unparsable_is_public_counterexample:
  "map is_public
     (read_rows ''2024-05-02''
        \<lparr> index_csv = Some [[''filename'' \<mapsto> ''a.md'', ''is_public'' \<mapsto> ''maybe'']],
          markdown_dir = Map.empty, prompt_file = None \<rparr>) = [False]"
  by (simp add: read_rows_def read_record_def parse_bool_def str_simps)

section \<open>Stored file names\<close>

lemma sanitize_my_report: "sanitize_filename ''My Report!.md'' = Inr ''My_Report.md''"
  by (simp add: sanitize_filename_def splitext_def basename_def rfind_char_def name_char_def
      ALLOWED_EXTENSIONS_def str_simps)

lemma splitext_my_report: "splitext ''My_Report.md'' = (''My_Report'', ''.md'')"
  by (simp add: splitext_def rfind_char_def)

lemma str_nat_1: "str_nat (Suc 0) = ''1''"
  by (simp add: str_nat.simps)

text \<open>
  C6 (as amended). Uploading a file named \<open>My Report!.md\<close> twice, with the first stored
  file still present, yields the stored filenames \<open>My_Report.md\<close> and \<open>My_Report-1.md\<close>:
  the stem keeps its capital letters, only the extension is put in lower case.
\<close>

theorem my_report_uploaded_twice:
  assumes "markdown_dir s ''My_Report.md'' = None"
    and "markdown_dir s ''My_Report-1.md'' = None"
  shows "save_markdown_file ''My Report!.md'' content1 s =
           Some (Inr (''My_Report.md'',
                      s\<lparr>markdown_dir := (markdown_dir s)(''My_Report.md'' \<mapsto> content1)\<rparr>)) \<and>
         save_markdown_file ''My Report!.md'' content2
             (s\<lparr>markdown_dir := (markdown_dir s)(''My_Report.md'' \<mapsto> content1)\<rparr>) =
           Some (Inr (''My_Report-1.md'',
                      s\<lparr>markdown_dir := (markdown_dir s)(''My_Report.md'' \<mapsto> content1,
                                                         ''My_Report-1.md'' \<mapsto> content2)\<rparr>))"
proof -
  have first: "ensure_unique_filename s ''My_Report.md'' = Some ''My_Report.md''"
    using assms(1) by (simp add: ensure_unique_filename_def)
  let ?s1 = "s\<lparr>markdown_dir := (markdown_dir s)(''My_Report.md'' \<mapsto> content1)\<rparr>"
  have "unique_loop (markdown_dir ?s1) ''My_Report'' ''.md'' 1 = Some ''My_Report-1.md''"
    using assms(2) by (subst unique_loop.simps) (simp add: str_nat_1)
  then have second: "ensure_unique_filename ?s1 ''My_Report.md'' = Some ''My_Report-1.md''"
    by (simp add: ensure_unique_filename_def splitext_my_report)
  show ?thesis
    by (simp add: save_markdown_file_def sanitize_my_report first second)
qed

theorem my_report_uploaded_twice_witness:
  "save_markdown_file ''My Report!.md'' ''# one'' empty_store =
     Some (Inr (''My_Report.md'',
                empty_store\<lparr>markdown_dir := [''My_Report.md'' \<mapsto> ''# one'']\<rparr>)) \<and>
   save_markdown_file ''My Report!.md'' ''# two''
       (empty_store\<lparr>markdown_dir := [''My_Report.md'' \<mapsto> ''# one'']\<rparr>) =
     Some (Inr (''My_Report-1.md'',
                empty_store\<lparr>markdown_dir := [''My_Report.md'' \<mapsto> ''# one'',
                                                ''My_Report-1.md'' \<mapsto> ''# two'']\<rparr>))"
proof -
  have h1: "markdown_dir empty_store ''My_Report.md'' = None"
    by (simp add: empty_store_def)
  have h2: "markdown_dir empty_store ''My_Report-1.md'' = None"
    by (simp add: empty_store_def)
  show ?thesis
    using my_report_uploaded_twice [OF h1 h2, of "''# one''" "''# two''"]
    by (simp add: empty_store_def)
qed

theorem my_report_lowercase_counterexample:
  "map_option (map_sum id fst) (save_markdown_file ''My Report!.md'' ''# one'' empty_store)
     \<noteq> Some (Inr ''my_report.md'')"
  by (simp add: save_markdown_file_def sanitize_my_report ensure_unique_filename_def
      empty_store_def)

section \<open>The search service without a client, with a failing engine, with a blank query\<close>

text \<open>
  C9 (as amended). When no client is configured, \<open>index_document\<close>, \<open>update_visibility\<close>
  and \<open>delete_document\<close> leave the service and the engine as they are and \<open>search\<close>
  returns \<open>None\<close>, which is not the empty list of results. With a client, \<open>search\<close>
  first runs the index check, whose engine errors are caught there and do not stop the
  search; an exception raised by the engine's search request is turned into the same
  \<open>None\<close>, and otherwise the hits are returned. No engine error reaches the caller.
\<close>

theorem search_not_available:
  "(client svc = None \<longrightarrow>
      index_document api fname content pub (svc, e) = (svc, e) \<and>
      update_visibility api fname pub (svc, e) = (svc, e) \<and>
      delete_document api fname (svc, e) = (svc, e) \<and>
      search api query public_only sz (svc, e) = (None, svc, e)) \<and>
   (None :: SearchResult list option) \<noteq> Some [] \<and>
   (client svc \<noteq> None \<longrightarrow> strip query \<noteq> [] \<longrightarrow>
      (case ensure_index api (svc, e) of
         (svc1, e1) \<Rightarrow>
           (case es_search api (index_name svc1)
                   \<lparr> body_must = build_query (strip query),
                     body_public_filter = public_only, body_size = sz \<rparr> e1 of
              (Inl exc, e2) \<Rightarrow> search api query public_only sz (svc, e) = (None, svc1, e2)
            | (Inr hits, e2) \<Rightarrow>
                search api query public_only sz (svc, e) =
                  (Some (concat (map hit_results hits)), svc1, e2))))"
  by (auto simp add: index_document_def update_visibility_def delete_document_def search_def
      Let_def split: prod.splits sum.splits)

theorem search_not_available_witness:
  "index_document counting_engine ''a.md'' ''text'' True (init_service None ''docs'' None None, 0) =
     (init_service None ''docs'' None None, 0) \<and>
   update_visibility counting_engine ''a.md'' True (init_service None ''docs'' None None, 0) =
     (init_service None ''docs'' None None, 0) \<and>
   delete_document counting_engine ''a.md'' (init_service None ''docs'' None None, 0) =
     (init_service None ''docs'' None None, 0) \<and>
   search counting_engine ''report'' True 50 (init_service None ''docs'' None None, 0) =
     (None, init_service None ''docs'' None None, 0) \<and>
   fst (search counting_engine ''report'' True 50
          (init_service (Some ''http://localhost:9200'') ''docs'' None None, 0)) = None"
proof -
  let ?off = "init_service None ''docs'' None None"
  let ?on = "init_service (Some ''http://localhost:9200'') ''docs'' None None"
  have off: "client ?off = None"
    by (simp add: init_service_def truthy_def)
  have on: "client ?on \<noteq> None"
    by (simp add: init_service_def truthy_def)
  have q: "strip ''report'' \<noteq> []"
    by (simp add: strip_def py_isspace_def)
  have ei: "ensure_index counting_engine (?on, 0) = (?on\<lparr>index_ready := True\<rparr>, 2)"
    by (simp add: ensure_index_def counting_engine_def init_service_def truthy_def)
  have a: "index_document counting_engine ''a.md'' ''text'' True (?off, 0) = (?off, 0) \<and>
           update_visibility counting_engine ''a.md'' True (?off, 0) = (?off, 0) \<and>
           delete_document counting_engine ''a.md'' (?off, 0) = (?off, 0) \<and>
           search counting_engine ''report'' True 50 (?off, 0) = (None, ?off, 0)"
    using off search_not_available [where svc = ?off and api = counting_engine
        and fname = "''a.md''" and content = "''text''" and pub = True and e = 0
        and query = "''report''" and public_only = True and sz = 50]
    by blast
  have b: "fst (search counting_engine ''report'' True 50 (?on, 0)) = None"
    using on q ei search_not_available [where svc = ?on and api = counting_engine
        and fname = "''a.md''" and content = "''text''" and pub = True and e = 0
        and query = "''report''" and public_only = True and sz = 50]
    by (simp add: counting_engine_def)
  show ?thesis using a b by simp
qed

theorem index_check_error_counterexample:
  "search check_failing_engine ''report'' True 50
     (\<lparr> index_name = ''docs'', index_ready = False,
        client = Some (''http://localhost:9200'', None) \<rparr>, 0) =
     (Some [\<lparr> snippet = ''the report'', result_filename = ''a.md'' \<rparr>],
      \<lparr> index_name = ''docs'', index_ready = False,
        client = Some (''http://localhost:9200'', None) \<rparr>, 2)"
  by (simp add: search_def ensure_index_def check_failing_engine_def hit_results_def
      strip_def py_isspace_def)

text \<open>
  C10 (as amended). For every query that is empty or only whitespace, search returns the
  empty result list on both paths. With a client configured the service returns \<open>[]\<close>
  without a search request: the engine is left as \<open>ensure_index\<close> leaves it, which is
  untouched once the index is known to be ready. The fallback scanner returns \<open>[]\<close>
  whatever the store holds, and so does \<open>_run_search\<close>.
\<close>

theorem blank_query_no_results:
  assumes "strip query = []"
  shows "(client (fst w) \<noteq> None \<longrightarrow>
            search api query public_only sz w = (Some [], ensure_index api w)) \<and>
         (client (fst w) \<noteq> None \<and> index_ready (fst w) \<longrightarrow>
            search api query public_only sz w = (Some [], w)) \<and>
         fallback_search today s query public_only = Some [] \<and>
         (\<exists>w'. run_search api today s query is_authenticated w = Some ([], w'))"
proof -
  have a: "client (fst w) \<noteq> None \<longrightarrow>
            search api query po z w = (Some [], ensure_index api w)" for po z
    using assms by (auto simp add: search_def split: prod.splits)
  have b: "index_ready (fst w) \<longrightarrow> ensure_index api w = w"
    by (cases w) (simp add: ensure_index_def)
  have c: "fallback_search today s query po = Some []" for po
    using assms by (simp add: fallback_search_def)
  have d: "\<exists>w'. run_search api today s query is_authenticated w = Some ([], w')"
  proof (cases "client (fst w) = None")
    case True
    then show ?thesis using c by (simp add: run_search_def is_enabled_def)
  next
    case False
    then show ?thesis using a [of "\<not> is_authenticated" 50]
      by (cases "ensure_index api w") (simp add: run_search_def is_enabled_def)
  qed
  show ?thesis using a b c d by simp
qed

theorem blank_query_no_results_witness:
  "search counting_engine ''  '' True 50
     (\<lparr> index_name = ''docs'', index_ready = True, client = Some (''http://localhost:9200'', None) \<rparr>, 0) =
     (Some [], \<lparr> index_name = ''docs'', index_ready = True,
                  client = Some (''http://localhost:9200'', None) \<rparr>, 0) \<and>
   fallback_search ''2024-05-02'' empty_store ''  '' True = Some []"
proof -
  let ?w = "(\<lparr> index_name = ''docs'', index_ready = True,
               client = Some (''http://localhost:9200'', None) \<rparr>, 0 :: nat)"
  have h: "strip ''  '' = []"
    by (simp add: strip_def py_isspace_def)
  have r: "client (fst ?w) \<noteq> None \<and> index_ready (fst ?w)"
    by simp
  show ?thesis
    using r blank_query_no_results [OF h, where w = ?w and api = counting_engine
        and public_only = True and sz = 50 and today = "''2024-05-02''" and s = empty_store]
    by blast
qed

theorem blank_query_engine_request_counterexample:
  "search counting_engine ''  '' True 50
     (\<lparr> index_name = ''docs'', index_ready = False, client = Some (''http://localhost:9200'', None) \<rparr>, 0) =
     (Some [], \<lparr> index_name = ''docs'', index_ready = True,
                  client = Some (''http://localhost:9200'', None) \<rparr>, 2)"
  by (simp add: search_def ensure_index_def counting_engine_def strip_def py_isspace_def)

section \<open>Finding the matches\<close>

lemma find_from_Some:
  "find_from s sub st = Some i \<Longrightarrow>
     st \<le> i \<and> i + length sub \<le> length s \<and> take (length sub) (drop i s) = sub \<and>
     (\<forall>j. st \<le> j \<and> j < i \<longrightarrow> take (length sub) (drop j s) \<noteq> sub)"
proof (induction s sub st rule: find_from.induct)
  case (1 s sub start)
  show ?case
  proof (cases "length s < start + length sub")
    case True
    with "1.prems" show ?thesis by (simp add: find_from.simps)
  next
    case False
    note inside = this
    show ?thesis
    proof (cases "take (length sub) (drop start s) = sub")
      case True
      with inside "1.prems" show ?thesis by (auto simp add: find_from.simps)
    next
      case False
      with inside "1.prems" have "find_from s sub (start + 1) = Some i"
        by (simp add: find_from.simps [of s sub start])
      with "1.IH" inside False
      have ih: "start + 1 \<le> i \<and> i + length sub \<le> length s \<and> take (length sub) (drop i s) = sub \<and>
         (\<forall>j. start + 1 \<le> j \<and> j < i \<longrightarrow> take (length sub) (drop j s) \<noteq> sub)"
        by simp
      have "take (length sub) (drop j s) \<noteq> sub" if "start \<le> j \<and> j < i" for j
      proof (cases "j = start")
        case True
        with False show ?thesis by simp
      next
        case False
        with that have "start + 1 \<le> j \<and> j < i" by simp
        with ih show ?thesis by blast
      qed
      with ih show ?thesis by auto
    qed
  qed
qed

lemma find_from_None:
  "find_from s sub st = None \<Longrightarrow> st \<le> j \<Longrightarrow> j + length sub \<le> length s \<Longrightarrow>
     take (length sub) (drop j s) \<noteq> sub"
proof (induction s sub st rule: find_from.induct)
  case (1 s sub start)
  show ?case
  proof (cases "length s < start + length sub")
    case True
    with "1.prems" show ?thesis by simp
  next
    case False
    note inside = this
    show ?thesis
    proof (cases "take (length sub) (drop start s) = sub")
      case True
      with inside "1.prems" show ?thesis by (simp add: find_from.simps [of s sub start])
    next
      case False
      with inside "1.prems" have n: "find_from s sub (start + 1) = None"
        by (simp add: find_from.simps [of s sub start])
      show ?thesis
      proof (cases "j = start")
        case True
        with False show ?thesis by simp
      next
        case False
        with "1.prems" have "start + 1 \<le> j" by simp
        with "1.IH" inside \<open>take (length sub) (drop start s) \<noteq> sub\<close> n "1.prems"
        show ?thesis by simp
      qed
    qed
  qed
qed

lemma find_loop_result:
  assumes "t \<noteq> []"
  shows "\<exists>ms. find_loop c t st acc = Some (acc @ ms) \<and>
           (\<forall>i \<in> set ms. st \<le> i \<and> i + length t \<le> length c \<and> take (length t) (drop i c) = t) \<and>
           sorted_wrt (\<lambda>i j. i + length t \<le> j) ms \<and>
           (\<forall>p. st \<le> p \<and> p + length t \<le> length c \<and> take (length t) (drop p c) = t \<longrightarrow>
                p \<in> set ms \<or> (\<exists>i \<in> set ms. i < p \<and> p < i + length t))"
proof (induction "length c + 1 - st" arbitrary: st acc rule: less_induct)
  case less
  show ?case
  proof (cases "find_from c t st")
    case None
    then have "find_loop c t st acc = Some (acc @ [])"
      by (subst find_loop.simps) simp
    moreover have "\<forall>p. st \<le> p \<and> p + length t \<le> length c \<and> take (length t) (drop p c) = t \<longrightarrow> False"
      using find_from_None [OF None] by blast
    ultimately show ?thesis by fastforce
  next
    case (Some i)
    note f = find_from_Some [OF Some]
    from assms have lt: "0 < length t" by simp
    with f have "length c + 1 - (i + length t) < length c + 1 - st" by linarith
    from less [OF this, of "acc @ [i]"]
    obtain ms where ms: "find_loop c t (i + length t) (acc @ [i]) = Some ((acc @ [i]) @ ms)"
      "\<forall>k \<in> set ms. i + length t \<le> k \<and> k + length t \<le> length c \<and> take (length t) (drop k c) = t"
      "sorted_wrt (\<lambda>i j. i + length t \<le> j) ms"
      "\<forall>p. i + length t \<le> p \<and> p + length t \<le> length c \<and> take (length t) (drop p c) = t \<longrightarrow>
                p \<in> set ms \<or> (\<exists>k \<in> set ms. k < p \<and> p < k + length t)"
      by blast
    have a: "find_loop c t st acc = Some (acc @ (i # ms))"
      using Some ms(1) by (subst find_loop.simps) simp
    have b: "\<forall>k \<in> set (i # ms). st \<le> k \<and> k + length t \<le> length c \<and> take (length t) (drop k c) = t"
      using f ms(2) by auto
    have c: "sorted_wrt (\<lambda>i j. i + length t \<le> j) (i # ms)"
      using ms(2,3) by simp
    have d: "p \<in> set (i # ms) \<or> (\<exists>k \<in> set (i # ms). k < p \<and> p < k + length t)"
      if p: "st \<le> p \<and> p + length t \<le> length c \<and> take (length t) (drop p c) = t" for p
    proof -
      have "\<not> p < i" using f p by blast
      then consider "p = i" | "i < p \<and> p < i + length t" | "i + length t \<le> p" by linarith
      then show ?thesis
      proof cases
        case 1
        then show ?thesis by simp
      next
        case 2
        then show ?thesis by auto
      next
        case 3
        with ms(4) p have "p \<in> set ms \<or> (\<exists>k \<in> set ms. k < p \<and> p < k + length t)" by blast
        then show ?thesis by auto
      qed
    qed
    from a b c d show ?thesis by blast
  qed
qed

lemma lower_Nil_iff: "lower t = [] \<longleftrightarrow> t = []"
  by (simp add: lower_def)

lemma length_lower: "length (lower t) = length t"
  by (simp add: lower_def)

lemma find_matches_result:
  assumes "trm \<noteq> []"
  shows "\<exists>ms. find_matches content trm = Some ms \<and>
           (\<forall>i \<in> set ms. occurs_at content trm i) \<and>
           sorted_wrt (\<lambda>i j. i + length trm \<le> j) ms \<and>
           (\<forall>p. occurs_at content trm p \<longrightarrow>
                p \<in> set ms \<or> (\<exists>i \<in> set ms. i < p \<and> p < i + length trm))"
proof -
  from assms have "lower trm \<noteq> []" by (simp add: lower_Nil_iff)
  from find_loop_result [OF this, of "lower content" 0 "[]"]
  show ?thesis using assms
    by (simp add: find_matches_def occurs_at_def length_lower)
qed




section \<open>Snippets\<close>

lemma find_matches_in_content:
  assumes "find_matches content trm = Some ms" and "start \<in> set ms"
  shows "start + length trm \<le> length content"
proof (cases "trm = []")
  case True
  with assms show ?thesis by (simp add: find_matches_def)
next
  case False
  from find_matches_result [OF False, of content] assms
  have "occurs_at content trm start" by auto
  then show ?thesis by (simp add: occurs_at_def)
qed

lemma window_holds_match:
  assumes "start + n \<le> length content"
  shows "take n (drop (start - (start - 25))
           (take (min (start + n + 25) (length content) - (start - 25))
              (drop (start - 25) content))) =
         take n (drop start content)"
proof -
  have "start - (start - 25) + (start - 25) = start" by simp
  moreover have "n \<le> min (start + n + 25) (length content) - (start - 25) - (start - (start - 25))"
    using assms by linarith
  ultimately show ?thesis
    by (simp add: drop_take min_absorb1)
qed

text \<open>
  C3 (as amended). In the fallback scanner, each hit's snippet is the content from 25
  characters before the match to 25 characters after it, cut off at the start and at the
  end of the document, and it holds the matched text. The marker \<open>...\<close> is prepended
  exactly when the match starts more than 25 characters into the document, and appended
  exactly when more than 25 characters follow the match: it marks document text left out
  of the snippet. For the term \<open>test\<close> at offset 100 of a 200-character document the
  snippet spans the offsets 75 to 129 and carries both markers.
\<close>

theorem fallback_snippet_window:
  assumes "find_matches content trm = Some ms" and "start \<in> set ms"
  shows "make_snippet content trm start =
           (if 25 < start then ''...'' else []) @
           take (min (start + length trm + 25) (length content) - (start - 25))
             (drop (start - 25) content) @
           (if start + length trm + 25 < length content then ''...'' else []) \<and>
         take (length trm) (drop (start - (start - 25))
           (take (min (start + length trm + 25) (length content) - (start - 25))
              (drop (start - 25) content))) =
         take (length trm) (drop start content)"
proof -
  have inside: "start + length trm \<le> length content"
    using assms by (rule find_matches_in_content)
  have lo: "nat (max (int start - int window) 0) = start - 25"
    by (simp add: window_def)
  have a: "make_snippet content trm start =
           (if 25 < start then ''...'' else []) @
           take (min (start + length trm + 25) (length content) - (start - 25))
             (drop (start - 25) content) @
           (if start + length trm + 25 < length content then ''...'' else [])"
    unfolding make_snippet_def Let_def lo
    using inside by (auto simp add: window_def min_def)
  show ?thesis
    using a window_holds_match [OF inside] by simp
qed

lemma example_doc_matches: "find_matches example_doc ''test'' = Some [100]"
  by code_simp

theorem fallback_snippet_window_witness:
  "make_snippet example_doc ''test'' 100 =
     ''...'' @ replicate 25 CHR ''a'' @ ''test'' @ replicate 25 CHR ''b'' @ ''...''"
proof -
  have h: "(100 :: nat) \<in> set [100]" by simp
  have "take 54 (drop 75 example_doc) = replicate 25 CHR ''a'' @ ''test'' @ replicate 25 CHR ''b''"
    by (simp add: example_doc_def)
  then show ?thesis
    using fallback_snippet_window [OF example_doc_matches h]
    by (simp add: example_doc_def)
qed

lemma example_snippet:
  "make_snippet example_doc ''test'' 100 =
     ''...aaaaaaaaaaaaaaaaaaaaaaaaatestbbbbbbbbbbbbbbbbbbbbbbbbb...''"
  by code_simp

theorem snippet_markers_present_counterexample:
  "fallback_search ''2024-05-02'' example_store ''test'' True =
     Some [\<lparr> snippet = ''...aaaaaaaaaaaaaaaaaaaaaaaaatestbbbbbbbbbbbbbbbbbbbbbbbbb...'',
              result_filename = ''doc.md'' \<rparr>]"
proof -
  have rows: "list_rows ''2024-05-02'' example_store =
      [\<lparr> filename = ''doc.md'', title = [], description = [], is_public = True,
          date_uploaded = ''2024-05-02'', updated_at = [] \<rparr>]"
    by (simp add: list_rows_def read_rows_def read_record_def parse_bool_def example_store_def
        str_simps)
  have q: "strip ''test'' = ''test''"
    by (simp add: strip_def py_isspace_def)
  have p: "extract_phrase ''test'' = None"
    by (simp add: extract_phrase_def)
  have f: "markdown_dir example_store ''doc.md'' = Some example_doc"
    by (simp add: example_store_def)
  show ?thesis
    by (simp add: fallback_search_def q p rows or_else_def f example_doc_matches example_snippet)
qed

section \<open>Sanitized file names are clean\<close>

lemma strip_id:
  assumes "s \<noteq> []" and "\<not> py_isspace (hd s)" and "\<not> py_isspace (last s)"
  shows "strip s = s"
proof -
  have a: "dropWhile py_isspace s = s"
    using assms(2) by (intro dropWhile_hd_id) simp
  have "hd (rev s) = last s" using assms(1) by (simp add: hd_rev)
  then have "dropWhile py_isspace (rev s) = rev s"
    using assms(3) by (intro dropWhile_hd_id) simp
  with a show ?thesis by (simp add: strip_def)
qed

lemma space_not_name_char: "py_isspace c \<Longrightarrow> \<not> name_char c"
  unfolding py_isspace_def
  by (simp only: set_simps insert_iff empty_iff, elim disjE) (simp_all add: name_char_def)

lemma name_char_not_space: "name_char c \<Longrightarrow> \<not> py_isspace c"
  using space_not_name_char by blast

lemma sub_runs_chars: "c \<in> set (sub_runs s) \<Longrightarrow> name_char c"
proof (induction s arbitrary: c rule: sub_runs.induct)
  case 1
  then show ?case by simp
next
  case (2 x xs)
  have u: "name_char CHR ''_''" by (simp add: name_char_def)
  show ?case
  proof (cases "name_char x")
    case True
    from "2.prems" True have "c = x \<or> c \<in> set (sub_runs xs)" by simp
    with True "2.IH"(1) show ?thesis by blast
  next
    case False
    from "2.prems" False
    have "c = CHR ''_'' \<or> c \<in> set (sub_runs (dropWhile (\<lambda>x. \<not> name_char x) xs))" by simp
    with False "2.IH"(2) u show ?thesis by blast
  qed
qed

lemma strip_chars_hd:
  assumes "strip_chars cs s \<noteq> []"
  shows "hd (strip_chars cs s) \<in> set s"
proof -
  let ?P = "\<lambda>c. c \<in> set cs"
  let ?t = "dropWhile ?P s"
  from assms have "hd (strip_chars cs s) = hd ?t"
    unfolding strip_chars_def by (rule rstrip_hd)
  moreover have "?t \<noteq> []"
  proof
    assume e: "?t = []"
    have "strip_chars cs s = []" unfolding strip_chars_def e by simp
    with assms show False by simp
  qed
  then have "hd ?t \<in> set ?t" by simp
  then have "hd ?t \<in> set s" using set_dropWhileD by fast
  ultimately show ?thesis by simp
qed

lemma sanitize_filename_clean:
  assumes "sanitize_filename original_name = Inr f"
  shows "clean_name f"
proof -
  obtain name ext where sp: "splitext (basename original_name) = (name, ext)"
    by (cases "splitext (basename original_name)")
  let ?stem = "strip_chars ''_'' (sub_runs name)"
  let ?name = "if ?stem = [] then ''document'' else ?stem"
  from assms sp have ext: "lower ext \<in> set ALLOWED_EXTENSIONS" and f: "f = ?name @ lower ext"
    by (auto simp add: sanitize_filename_def Let_def split: if_splits)
  from ext have l: "lower ext \<noteq> [] \<and> \<not> py_isspace (last (lower ext))"
    by (auto simp add: ALLOWED_EXTENSIONS_def py_isspace_def)
  have ne: "?name \<noteq> []" by simp
  have "\<not> py_isspace (hd ?name)"
  proof (cases "?stem = []")
    case True
    then show ?thesis by (simp add: py_isspace_def)
  next
    case False
    then have "hd ?stem \<in> set (sub_runs name)" by (rule strip_chars_hd)
    then have "name_char (hd ?stem)" by (rule sub_runs_chars)
    then have "\<not> py_isspace (hd ?stem)" by (rule name_char_not_space)
    with False show ?thesis by simp
  qed
  with ne have h: "\<not> py_isspace (hd f)" unfolding f by (simp add: hd_append)
  from l have t: "\<not> py_isspace (last f)" unfolding f by simp
  from ne have "f \<noteq> []" unfolding f by simp
  from strip_id [OF this h t] \<open>f \<noteq> []\<close> show ?thesis by (simp add: clean_name_def)
qed

section \<open>Upserting\<close>

lemma read_record_filename:
  "read_record today record = Some r \<Longrightarrow> clean_name (filename r)"
  by (auto simp add: read_record_def clean_name_def Let_def strip_idem split: if_splits)

lemma read_rows_clean:
  "r \<in> set (read_rows today s) \<Longrightarrow> clean_name (filename r)"
  by (auto simp add: read_rows_def List.map_filter_def read_record_filename split: option.splits)

lemma read_rows_filenames_today:
  "map filename (read_rows d s) = map filename (read_rows d' s)"
proof -
  have "map filename (List.map_filter (read_record d) rs) =
        map filename (List.map_filter (read_record d') rs)" for rs
    by (induction rs) (auto simp add: read_record_def Let_def)
  then show ?thesis by (simp add: read_rows_def split: option.splits)
qed

lemma read_back_clean:
  assumes "\<forall>r \<in> set rows. clean_name (filename r)"
  shows "read_rows today (write_rows rows s) = map (stored today) rows"
  using assms
  by (induction rows)
    (simp_all add: read_rows_write_rows read_record_write_record clean_name_def)

lemma stored_filename: "clean_name (filename r) \<Longrightarrow> filename (stored today r) = filename r"
  by (simp add: stored_def clean_name_def)

lemma replace_first_filenames:
  "map filename (fst (replace_first row rows)) = map filename rows"
  by (induction rows) (auto split: prod.splits)

lemma replace_first_updated:
  "snd (replace_first row rows) \<longleftrightarrow> filename row \<in> filename ` set rows"
  by (induction rows) (auto split: prod.splits)

lemma replace_first_set:
  "set (fst (replace_first row rows)) \<subseteq> insert row (set rows)"
  by (induction rows) (auto split: prod.splits)

lemma replace_first_at:
  assumes "filename row \<in> filename ` set rows"
  shows "\<exists>i < length rows. filename (rows ! i) = filename row \<and>
           (\<forall>j < i. filename (rows ! j) \<noteq> filename row) \<and>
           fst (replace_first row rows) = rows[i := row]"
  using assms
proof (induction rows)
  case Nil
  then show ?case by simp
next
  case (Cons a rows)
  show ?case
  proof (cases "filename a = filename row")
    case True
    then have "filename ((a # rows) ! 0) = filename row \<and>
           (\<forall>j < 0. filename ((a # rows) ! j) \<noteq> filename row) \<and>
           fst (replace_first row (a # rows)) = (a # rows)[0 := row]"
      by simp
    then show ?thesis by blast
  next
    case False
    with Cons.prems have "filename row \<in> filename ` set rows" by auto
    from Cons.IH [OF this] obtain i where i: "i < length rows" "filename (rows ! i) = filename row"
      "\<forall>j < i. filename (rows ! j) \<noteq> filename row" "fst (replace_first row rows) = rows[i := row]"
      by blast
    have "\<forall>j < Suc i. filename ((a # rows) ! j) \<noteq> filename row"
      using False i(3) by (auto simp add: less_Suc_eq_0_disj)
    moreover have "fst (replace_first row (a # rows)) = (a # rows)[Suc i := row]"
      using False i(4) by (cases "replace_first row rows") auto
    ultimately have "Suc i < length (a # rows) \<and> filename ((a # rows) ! Suc i) = filename row \<and>
           (\<forall>j < Suc i. filename ((a # rows) ! j) \<noteq> filename row) \<and>
           fst (replace_first row (a # rows)) = (a # rows)[Suc i := row]"
      using i(1,2) by simp
    then show ?thesis by blast
  qed
qed

text \<open>The rows that \<open>upsert_row\<close> hands to \<open>_write_rows\<close>.\<close>

lemma upsert_row_written:
  "upsert_row today row s =
     write_rows (if filename row \<in> filename ` set (read_rows today s)
                 then fst (replace_first row (read_rows today s))
                 else fst (replace_first row (read_rows today s)) @ [row]) s"
  using replace_first_updated [of row "read_rows today s"]
  by (cases "replace_first row (read_rows today s)") (auto simp add: upsert_row_def)

lemma upsert_row_read:
  assumes "clean_name (filename row)"
  shows "read_rows d (upsert_row today row s) =
     map (stored d) (if filename row \<in> filename ` set (read_rows today s)
                 then fst (replace_first row (read_rows today s))
                 else fst (replace_first row (read_rows today s)) @ [row])"
proof -
  have "\<forall>r \<in> set (fst (replace_first row (read_rows today s))). clean_name (filename r)"
    using replace_first_set [of row "read_rows today s"] assms read_rows_clean [of _ today s]
    by auto
  with assms show ?thesis
    unfolding upsert_row_written by (intro read_back_clean) auto
qed

lemma map_filename_stored:
  "\<forall>r \<in> set rows. clean_name (filename r) \<Longrightarrow> map filename (map (stored d) rows) = map filename rows"
  by (induction rows) (simp_all add: stored_filename)

lemma upsert_row_filenames:
  assumes "clean_name (filename row)"
  shows "map filename (read_rows d (upsert_row today row s)) =
           (if filename row \<in> filename ` set (read_rows today s)
            then map filename (read_rows today s)
            else map filename (read_rows today s) @ [filename row])"
proof -
  have c: "\<forall>r \<in> set (fst (replace_first row (read_rows today s))). clean_name (filename r)"
    using replace_first_set [of row "read_rows today s"] assms read_rows_clean [of _ today s]
    by auto
  show ?thesis
  proof (cases "filename row \<in> filename ` set (read_rows today s)")
    case True
    then show ?thesis
      using map_filename_stored [OF c, of d]
      by (simp add: upsert_row_read [OF assms] replace_first_filenames)
  next
    case False
    have "\<forall>r \<in> set (fst (replace_first row (read_rows today s)) @ [row]). clean_name (filename r)"
      using c assms by simp
    from map_filename_stored [OF this, of d] False show ?thesis
      by (simp add: upsert_row_read [OF assms] replace_first_filenames)
  qed
qed

lemma upsert_row_distinct:
  assumes "clean_name (filename row)" and "distinct (map filename (read_rows d s))"
  shows "distinct (map filename (read_rows d' (upsert_row today row s)))"
proof -
  have "distinct (map filename (read_rows today s))"
    using assms(2) read_rows_filenames_today [of d s today] by simp
  then show ?thesis
    unfolding upsert_row_filenames [OF assms(1)] by auto
qed

lemma upsert_rows_distinct:
  assumes "\<forall>c \<in> set calls. clean_name (filename (snd c))"
    and "distinct (map filename (read_rows d s))"
  shows "distinct (map filename (read_rows d (fold (\<lambda>c. upsert_row (fst c) (snd c)) calls s)))"
  using assms
proof (induction calls arbitrary: s)
  case Nil
  then show ?case by simp
next
  case (Cons c calls)
  have "distinct (map filename (read_rows d (upsert_row (fst c) (snd c) s)))"
    using Cons.prems by (intro upsert_row_distinct [of _ d]) auto
  with Cons show ?case by simp
qed

lemma read_record_trimmed:
  "read_record today record = Some r \<Longrightarrow> trimmed_row r"
  by (auto simp add: read_record_def trimmed_row_def trimmed_def Let_def strip_idem
      split: if_splits)

lemma read_rows_trimmed:
  "r \<in> set (read_rows today s) \<Longrightarrow> trimmed_row r"
  by (auto simp add: read_rows_def List.map_filter_def read_record_trimmed split: option.splits)

lemma stored_read_rows:
  "map (stored today) (read_rows d s) = map (default_date today) (read_rows d s)"
  using read_rows_trimmed [of _ d s] by (simp add: stored_trimmed)

lemma replace_first_absent:
  "filename row \<notin> filename ` set rows \<Longrightarrow> fst (replace_first row rows) = rows"
  by (induction rows) (auto split: prod.splits)

text \<open>
  C1 (as amended). For every table whose records have pairwise-distinct filenames and
  every sequence of \<open>upsert_row\<close> calls whose rows have a filename that is not empty and
  has no whitespace at either end (as every sanitized filename is), the resulting table
  still has pairwise-distinct filenames. An \<open>upsert_row\<close> of such a row for a filename
  already present puts the row, as it reads back, at the position of the first record
  with that filename and leaves the table length unchanged; for an absent filename it
  appends the row as one record. The other records stay as they are, an empty
  \<open>date_uploaded\<close> reading back as the current date.
\<close>

theorem upsert_row_unique_filenames:
  assumes "clean_name (filename row)"
    and "\<forall>c \<in> set calls. clean_name (filename (snd c))"
  shows "(distinct (map filename (list_rows today s)) \<longrightarrow>
            distinct (map filename
              (list_rows today (fold (\<lambda>c. upsert_row (fst c) (snd c)) calls s)))) \<and>
         (filename row \<in> filename ` set (list_rows today s) \<longrightarrow>
            length (list_rows today (upsert_row today row s)) = length (list_rows today s) \<and>
            (\<exists>i < length (list_rows today s).
               filename (list_rows today s ! i) = filename row \<and>
               (\<forall>j < i. filename (list_rows today s ! j) \<noteq> filename row) \<and>
               list_rows today (upsert_row today row s) =
                 (map (default_date today) (list_rows today s))[i := stored today row])) \<and>
         (filename row \<notin> filename ` set (list_rows today s) \<longrightarrow>
            list_rows today (upsert_row today row s) =
              map (default_date today) (list_rows today s) @ [stored today row])"
proof -
  let ?rows = "read_rows today s"
  have a: "distinct (map filename ?rows) \<longrightarrow>
            distinct (map filename
              (read_rows today (fold (\<lambda>c. upsert_row (fst c) (snd c)) calls s)))"
    using upsert_rows_distinct [OF assms(2)] by blast
  have b: "length (read_rows today (upsert_row today row s)) = length ?rows \<and>
            (\<exists>i < length ?rows.
               filename (?rows ! i) = filename row \<and>
               (\<forall>j < i. filename (?rows ! j) \<noteq> filename row) \<and>
               read_rows today (upsert_row today row s) =
                 (map (default_date today) ?rows)[i := stored today row])"
    if present: "filename row \<in> filename ` set ?rows"
  proof -
    from replace_first_at [OF present] obtain i where i: "i < length ?rows"
      "filename (?rows ! i) = filename row" "\<forall>j < i. filename (?rows ! j) \<noteq> filename row"
      "fst (replace_first row ?rows) = ?rows[i := row]"
      by blast
    have "read_rows today (upsert_row today row s) = map (stored today) (?rows[i := row])"
      using present i(4) by (simp add: upsert_row_read [OF assms(1)])
    also have "\<dots> = (map (stored today) ?rows)[i := stored today row]"
      by (simp add: map_update)
    also have "\<dots> = (map (default_date today) ?rows)[i := stored today row]"
      by (simp add: stored_read_rows)
    finally have e: "read_rows today (upsert_row today row s) =
        (map (default_date today) ?rows)[i := stored today row]" .
    then have "length (read_rows today (upsert_row today row s)) = length ?rows" by simp
    with e i(1,2,3) show ?thesis by blast
  qed
  have c: "read_rows today (upsert_row today row s) =
              map (default_date today) ?rows @ [stored today row]"
    if absent: "filename row \<notin> filename ` set ?rows"
  proof -
    from absent have "fst (replace_first row ?rows) = ?rows"
      by (rule replace_first_absent)
    with absent show ?thesis
      by (simp add: upsert_row_read [OF assms(1)] stored_read_rows)
  qed
  from a b c show ?thesis unfolding list_rows_def by blast
qed

theorem upsert_row_unique_filenames_witness:
  "distinct (map filename (list_rows ''2024-05-02''
      (fold (\<lambda>c. upsert_row (fst c) (snd c))
         [(''2024-05-01'', \<lparr> filename = ''a.md'', title = ''A'', description = [], is_public = True,
              date_uploaded = ''2024-05-01'', updated_at = [] \<rparr>),
          (''2024-05-02'', \<lparr> filename = ''a.md'', title = ''B'', description = [], is_public = True,
              date_uploaded = ''2024-05-01'', updated_at = [] \<rparr>)]
         empty_store))) \<and>
   list_rows ''2024-05-02''
     (upsert_row ''2024-05-02''
        \<lparr> filename = ''a.md'', title = ''A'', description = [], is_public = True,
           date_uploaded = ''2024-05-01'', updated_at = [] \<rparr> empty_store) =
     [\<lparr> filename = ''a.md'', title = ''A'', description = [], is_public = True,
         date_uploaded = ''2024-05-01'', updated_at = [] \<rparr>] \<and>
   length (list_rows ''2024-05-02''
     (upsert_row ''2024-05-02''
        \<lparr> filename = ''a.md'', title = ''A'', description = [], is_public = True,
           date_uploaded = ''2024-05-01'', updated_at = [] \<rparr>
        (write_rows [\<lparr> filename = ''a.md'', title = ''Old'', description = [], is_public = False,
           date_uploaded = ''2024-04-01'', updated_at = [] \<rparr>] empty_store))) = 1"
proof -
  let ?a = "\<lparr> filename = ''a.md'', title = ''A'', description = [], is_public = True,
              date_uploaded = ''2024-05-01'', updated_at = [] \<rparr>"
  let ?b = "\<lparr> filename = ''a.md'', title = ''B'', description = [], is_public = True,
              date_uploaded = ''2024-05-01'', updated_at = [] \<rparr>"
  let ?old = "\<lparr> filename = ''a.md'', title = ''Old'', description = [], is_public = False,
           date_uploaded = ''2024-04-01'', updated_at = [] \<rparr>"
  let ?calls = "[(''2024-05-01'', ?a), (''2024-05-02'', ?b)]"
  have h1: "clean_name (filename ?a)"
    by (simp add: clean_name_def strip_def py_isspace_def)
  have h2: "\<forall>c \<in> set ?calls. clean_name (filename (snd c))"
    by (simp add: clean_name_def strip_def py_isspace_def)
  have e: "list_rows ''2024-05-02'' empty_store = []"
    by (simp add: list_rows_def read_rows_def empty_store_def)
  have o: "list_rows ''2024-05-02'' (write_rows [?old] empty_store) = [?old]"
    by (simp add: list_rows_def read_rows_write_rows read_record_write_record stored_def
        strip_def py_isspace_def)
  have st: "stored ''2024-05-02'' ?a = ?a"
    by (simp add: stored_def strip_def py_isspace_def)
  note t1 = upsert_row_unique_filenames [OF h1 h2, of "''2024-05-02''" empty_store]
  note t2 = upsert_row_unique_filenames [OF h1 h2, of "''2024-05-02''"
      "write_rows [?old] empty_store"]
  have p1: "distinct (map filename (list_rows ''2024-05-02''
      (fold (\<lambda>c. upsert_row (fst c) (snd c)) ?calls empty_store)))"
    using t1 e by simp
  have p2: "list_rows ''2024-05-02'' (upsert_row ''2024-05-02'' ?a empty_store) = [?a]"
    using t1 e st by simp
  have p3: "length (list_rows ''2024-05-02''
     (upsert_row ''2024-05-02'' ?a (write_rows [?old] empty_store))) = 1"
    using t2 o by simp
  from p1 p2 p3 show ?thesis by blast
qed

theorem upsert_row_padded_filename_counterexample:
  "map filename (list_rows ''2024-05-02''
     (upsert_row ''2024-05-02''
        \<lparr> filename = '' a.md'', title = ''A'', description = [], is_public = True,
           date_uploaded = ''2024-05-01'', updated_at = [] \<rparr>
        (write_rows [\<lparr> filename = ''a.md'', title = ''Old'', description = [], is_public = False,
           date_uploaded = ''2024-04-01'', updated_at = [] \<rparr>] empty_store))) =
   [''a.md'', ''a.md'']"
  by (simp add: list_rows_def upsert_row_def read_rows_write_rows read_record_write_record
      stored_def strip_def py_isspace_def)

section \<open>Metadata updates\<close>

lemma apply_update_filename: "filename (apply_update now updates r) = filename r"
  by (simp add: apply_update_def Let_def split: option.splits)

lemma apply_update_absent:
  "map_of updates (filename r) = None \<Longrightarrow> apply_update now updates r = r"
  by (simp add: apply_update_def)

lemma apply_update_present:
  assumes "map_of updates (filename r) = Some u"
  shows "apply_update now updates r =
           r\<lparr> title := or_else (map_of u ''title'') (title r),
              description := or_else (map_of u ''description'') (description r),
              updated_at := now \<rparr>"
  using assms by (simp add: apply_update_def or_else_def Let_def split: option.splits)

lemma update_missing_metadata_read:
  "read_rows d (update_missing_metadata today now updates s) =
     (if updates = [] then read_rows d s
      else map (stored d) (map (apply_update now updates) (read_rows today s)))"
proof (cases "updates = []")
  case True
  then show ?thesis by (simp add: update_missing_metadata_def)
next
  case False
  have "\<forall>r \<in> set (map (apply_update now updates) (read_rows today s)). clean_name (filename r)"
    using read_rows_clean [of _ today s] by (simp add: apply_update_filename)
  from read_back_clean [OF this] False show ?thesis
    by (simp add: update_missing_metadata_def)
qed

lemma build_step_keeps:
  assumes "truthy (existing_get existing f key)" and "key = ''title'' \<or> key = ''description''"
    and "\<forall>p. map_of (fst acc) f = Some p \<longrightarrow> map_of p key = None"
  shows "\<forall>p. map_of (fst (build_step generate s existing fname acc)) f = Some p \<longrightarrow>
           map_of p key = None"
proof (cases "fname = f")
  case False
  with assms(3) show ?thesis
    by (cases acc)
      (auto simp add: build_step_def Let_def update_conv' split: option.splits)
next
  case True
  with assms show ?thesis
    by (cases acc)
      (auto simp add: build_step_def Let_def update_conv' split: option.splits)
qed

lemma build_fold_keeps:
  assumes "truthy (existing_get existing f key)" and "key = ''title'' \<or> key = ''description''"
    and "\<forall>p. map_of (fst acc) f = Some p \<longrightarrow> map_of p key = None"
  shows "\<forall>p. map_of (fst (fold (build_step generate s existing) filenames acc)) f = Some p \<longrightarrow>
           map_of p key = None"
  using assms(3)
proof (induction filenames arbitrary: acc)
  case Nil
  then show ?case by simp
next
  case (Cons fname filenames)
  from build_step_keeps [OF assms(1,2) Cons.prems, of generate s fname]
  show ?case by (simp add: Cons.IH)
qed

lemma build_metadata_updates_keeps:
  assumes "truthy (existing_get existing f key)" and "key = ''title'' \<or> key = ''description''"
  shows "\<forall>p. map_of (fst (build_metadata_updates generate s filenames existing)) f = Some p \<longrightarrow>
           map_of p key = None"
  unfolding build_metadata_updates_def
  by (rule build_fold_keeps [OF assms]) simp

text \<open>
  C7. For every record whose existing title is non-empty, \<open>_build_metadata_updates\<close>, given
  that record's current values in the existing map, proposes no title for that filename,
  whatever the summarizer returns; applying the proposed updates with
  \<open>update_missing_metadata\<close> leaves the record's stored title as it was. The same holds for
  the description.
\<close>

theorem enrichment_keeps_existing_values:
  assumes "i < length (list_rows today s)"
  shows "(existing_get existing (filename (list_rows today s ! i)) ''title'' =
            Some (title (list_rows today s ! i)) \<and> title (list_rows today s ! i) \<noteq> [] \<longrightarrow>
          (\<forall>payload. map_of (fst (build_metadata_updates generate s filenames existing))
                        (filename (list_rows today s ! i)) = Some payload \<longrightarrow>
                      map_of payload ''title'' = None) \<and>
          title (list_rows today
                   (update_missing_metadata today now
                      (fst (build_metadata_updates generate s filenames existing)) s) ! i) =
            title (list_rows today s ! i)) \<and>
         (existing_get existing (filename (list_rows today s ! i)) ''description'' =
            Some (description (list_rows today s ! i)) \<and>
          description (list_rows today s ! i) \<noteq> [] \<longrightarrow>
          (\<forall>payload. map_of (fst (build_metadata_updates generate s filenames existing))
                        (filename (list_rows today s ! i)) = Some payload \<longrightarrow>
                      map_of payload ''description'' = None) \<and>
          description (list_rows today
                   (update_missing_metadata today now
                      (fst (build_metadata_updates generate s filenames existing)) s) ! i) =
            description (list_rows today s ! i))"
proof -
  let ?rows = "read_rows today s"
  let ?r = "?rows ! i"
  let ?updates = "fst (build_metadata_updates generate s filenames existing)"
  let ?s' = "update_missing_metadata today now ?updates s"
  from assms have i: "i < length ?rows" by (simp add: list_rows_def)
  then have "?r \<in> set ?rows" by simp
  then have tr: "trimmed_row ?r" by (rule read_rows_trimmed)
  have after: "read_rows today ?s' ! i =
      (if ?updates = [] then ?r else stored today (apply_update now ?updates ?r))"
    using i by (simp add: update_missing_metadata_read)
  have t: "(\<forall>payload. map_of ?updates (filename ?r) = Some payload \<longrightarrow>
                      map_of payload ''title'' = None) \<and>
          title (read_rows today ?s' ! i) = title ?r"
    if e: "existing_get existing (filename ?r) ''title'' = Some (title ?r)" and n: "title ?r \<noteq> []"
  proof -
    from e n have "truthy (existing_get existing (filename ?r) ''title'')"
      by (simp add: truthy_def)
    from build_metadata_updates_keeps [OF this, of generate s filenames]
    have k: "\<forall>p. map_of ?updates (filename ?r) = Some p \<longrightarrow> map_of p ''title'' = None"
      by simp
    have "title (apply_update now ?updates ?r) = title ?r"
    proof (cases "map_of ?updates (filename ?r)")
      case None
      then show ?thesis by (simp add: apply_update_absent)
    next
      case (Some u)
      with k have "map_of u ''title'' = None" by simp
      with Some show ?thesis by (simp add: apply_update_present or_else_def)
    qed
    then have "title (read_rows today ?s' ! i) = title ?r"
      using tr by (simp add: after stored_def trimmed_row_def trimmed_def)
    with k show ?thesis by simp
  qed
  have d: "(\<forall>payload. map_of ?updates (filename ?r) = Some payload \<longrightarrow>
                      map_of payload ''description'' = None) \<and>
          description (read_rows today ?s' ! i) = description ?r"
    if e: "existing_get existing (filename ?r) ''description'' = Some (description ?r)"
      and n: "description ?r \<noteq> []"
  proof -
    from e n have "truthy (existing_get existing (filename ?r) ''description'')"
      by (simp add: truthy_def)
    from build_metadata_updates_keeps [OF this, of generate s filenames]
    have k: "\<forall>p. map_of ?updates (filename ?r) = Some p \<longrightarrow> map_of p ''description'' = None"
      by simp
    have "description (apply_update now ?updates ?r) = description ?r"
    proof (cases "map_of ?updates (filename ?r)")
      case None
      then show ?thesis by (simp add: apply_update_absent)
    next
      case (Some u)
      with k have "map_of u ''description'' = None" by simp
      with Some show ?thesis by (simp add: apply_update_present or_else_def)
    qed
    then have "description (read_rows today ?s' ! i) = description ?r"
      using tr by (simp add: after stored_def trimmed_row_def trimmed_def)
    with k show ?thesis by simp
  qed
  from t d show ?thesis unfolding list_rows_def by blast
qed

lemma enrich_store_rows:
  "list_rows ''2024-05-02'' enrich_store =
     [\<lparr> filename = ''d.md'', title = ''X'', description = ''Z'', is_public = True,
         date_uploaded = ''2024-05-01'', updated_at = ''2024-05-01 09:00:00'' \<rparr>,
      \<lparr> filename = ''e.md'', title = [], description = [], is_public = False,
         date_uploaded = ''2024-05-01'', updated_at = ''2024-05-01 09:00:00'' \<rparr>]"
  by (simp add: list_rows_def read_rows_def read_record_def parse_bool_def enrich_store_def
      str_simps)

theorem enrichment_keeps_existing_values_witness:
  "title (list_rows ''2024-05-02''
            (update_missing_metadata ''2024-05-02'' ''2024-05-02 10:00:00''
               (fst (build_metadata_updates constant_summarizer enrich_store
                       [''d.md'', ''e.md''] enrich_existing)) enrich_store) ! 0) = ''X'' \<and>
   description (list_rows ''2024-05-02''
            (update_missing_metadata ''2024-05-02'' ''2024-05-02 10:00:00''
               (fst (build_metadata_updates constant_summarizer enrich_store
                       [''d.md'', ''e.md''] enrich_existing)) enrich_store) ! 0) = ''Z''"
proof -
  have h: "0 < length (list_rows ''2024-05-02'' enrich_store)"
    by (simp add: enrich_store_rows)
  have t: "existing_get enrich_existing ''d.md'' ''title'' = Some ''X''"
    by (simp add: existing_get_def enrich_existing_def)
  have d: "existing_get enrich_existing ''d.md'' ''description'' = Some ''Z''"
    by (simp add: existing_get_def enrich_existing_def)
  show ?thesis
    using t d enrichment_keeps_existing_values [OF h, of enrich_existing constant_summarizer
        "[''d.md'', ''e.md'']" "''2024-05-02 10:00:00''"]
    by (simp add: enrich_store_rows)
qed



end
